theory Spec2Isabelle
  imports Complex_Main "HOL-Library.Log_Nat"
begin

section \<open>Python values and control flow used by gamestate.py\<close>

text \<open>
  The exceptions the code of \<^verbatim>\<open>gamestate.py\<close> can raise: a list subscript out of range,
  a division by zero, and a float result too large to represent.
\<close>

datatype py_error = IndexError | ZeroDivisionError | OverflowError

text \<open>
  An expression either raises (\<open>Inl\<close>) or has a value (\<open>Inr\<close>); \<open>bind_r\<close> evaluates one
  expression after another, the first exception ending the evaluation.
\<close>

definition bind_r :: "py_error + 'a \<Rightarrow> ('a \<Rightarrow> py_error + 'b) \<Rightarrow> py_error + 'b" where
  "bind_r m f = (case m of Inl e \<Rightarrow> Inl e | Inr x \<Rightarrow> f x)"

text \<open>
  The position a list of length \<open>n\<close> gives to the subscript \<open>i\<close>: Python counts a negative
  subscript from the end of the list, and raises IndexError outside \<open>[-n, n)\<close>.
\<close>

definition py_pos :: "nat \<Rightarrow> int \<Rightarrow> py_error + nat" where
  "py_pos n i =
     (if 0 \<le> i \<and> i < int n then Inr (nat i)
      else if i < 0 \<and> - int n \<le> i then Inr (nat (int n + i))
      else Inl IndexError)"

definition py_getitem :: "'a list \<Rightarrow> int \<Rightarrow> py_error + 'a" where
  "py_getitem xs i = bind_r (py_pos (length xs) i) (\<lambda>k. Inr (xs ! k))"

text \<open>\<^verbatim>\<open>range(a, b)\<close>: the integers from \<open>a\<close> up to \<open>b - 1\<close>, none when \<open>b \<le> a\<close>.\<close>

definition py_range :: "int \<Rightarrow> int \<Rightarrow> int list" where
  "py_range a b = map (\<lambda>k. a + int k) [0..<nat (b - a)]"

text \<open>A \<^verbatim>\<open>for\<close> loop that updates local variables (\<open>acc\<close>) and may raise.\<close>

fun for_acc :: "'a list \<Rightarrow> ('a \<Rightarrow> 'b \<Rightarrow> py_error + 'b) \<Rightarrow> 'b \<Rightarrow> py_error + 'b" where
  "for_acc [] body acc = Inr acc"
| "for_acc (x # xs) body acc =
     (case body x acc of Inl e \<Rightarrow> Inl e | Inr acc' \<Rightarrow> for_acc xs body acc')"

section \<open>Python floats\<close>

text \<open>
  A finite Python float is an IEEE 754 binary64 number: a sign bit and a magnitude, here the
  exact rational value of the magnitude (\<open>-0.0\<close> is \<open>PyFloat True 0\<close>).
\<close>

datatype pyfloat = PyFloat (fneg: bool) (fmag: rat)

definition pow2 :: "int \<Rightarrow> rat" where
  "pow2 e = (if 0 \<le> e then 2 ^ nat e else 1 / 2 ^ nat (- e))"

text \<open>\<open>\<lfloor>log\<^sub>2 q\<rfloor>\<close> of a positive rational, from the bit lengths of numerator and denominator.\<close>

definition ilog2 :: "rat \<Rightarrow> int" where
  "ilog2 q =
     (let (a, b) = quotient_of q; d = bitlen a - bitlen b
      in if pow2 d \<le> q then d else d - 1)"

text \<open>Rounding to the nearest integer, a tie going to the even one.\<close>

definition round_half_even :: "rat \<Rightarrow> int" where
  "round_half_even q =
     (let f = \<lfloor>q\<rfloor>; r = q - of_int f
      in if r < 1 / 2 then f else if 1 / 2 < r then f + 1 else if even f then f else f + 1)"

text \<open>
  The binary64 number nearest to a non-negative rational (ties to even): 53 significant bits,
  the exponent of the last bit never below \<open>-1074\<close> (subnormal numbers), no value when the
  result would reach \<open>2 ^ 1024\<close>.
\<close>

definition binary64_round :: "rat \<Rightarrow> rat option" where
  "binary64_round q =
     (if q \<le> 0 then Some 0
      else let e = max (ilog2 q) (- 1022);
               ulp = pow2 (e - 52);
               r = of_int (round_half_even (q / ulp)) * ulp
           in if r < pow2 1024 then Some r else None)"

text \<open>
  \<^verbatim>\<open>a / b\<close> on Python integers (true division): ZeroDivisionError when \<open>b\<close> is zero, else the
  correctly rounded quotient, OverflowError when it is too large for a float.
\<close>

definition py_truediv :: "int \<Rightarrow> int \<Rightarrow> py_error + pyfloat" where
  "py_truediv a b =
     (if b = 0 then Inl ZeroDivisionError
      else case binary64_round (\<bar>of_int a\<bar> / \<bar>of_int b\<bar>) of
             None \<Rightarrow> Inl OverflowError
           | Some m \<Rightarrow> Inr (PyFloat ((a < 0) \<noteq> (b < 0)) m))"

text \<open>
  \<^verbatim>\<open>round(x, ndigits)\<close> on a float, for \<open>0 \<le> ndigits\<close>: the float is written as a decimal
  string with \<open>ndigits\<close> digits after the point, correctly rounded from its exact value
  (ties to even), and the string is read back as the nearest float. Above 323 digits a
  float rounds to itself.
\<close>

definition py_round :: "pyfloat \<Rightarrow> nat \<Rightarrow> py_error + pyfloat" where
  "py_round x ndigits =
     (if 323 < ndigits then Inr x
      else case binary64_round (of_int (round_half_even (fmag x * 10 ^ ndigits)) / 10 ^ ndigits) of
             None \<Rightarrow> Inl OverflowError
           | Some m \<Rightarrow> Inr (PyFloat (fneg x) m))"

text \<open>A float literal such as \<^verbatim>\<open>0.03\<close>: the float nearest to the decimal \<open>n / 10 ^ k\<close>.\<close>

definition py_float_literal :: "nat \<Rightarrow> nat \<Rightarrow> pyfloat" where
  "py_float_literal n k = PyFloat False (the (binary64_round (of_nat n / 10 ^ k)))"

section \<open>class Cell\<close>

text \<open>The two attributes \<^verbatim>\<open>_value\<close> and \<^verbatim>\<open>_alive_time\<close> of a \<^verbatim>\<open>Cell\<close>.\<close>

record cell =
  cvalue :: int
  alive_time :: int

text \<open>
  What \<^verbatim>\<open>cell_changed.emit(value, alive_time)\<close> sends: a method of \<^verbatim>\<open>Cell\<close> returns the
  cell after the call and the emissions of the call, in order.
\<close>

type_synonym emission = "int \<times> int"

definition Cell :: cell where
  "Cell = \<lparr>cvalue = 0, alive_time = 0\<rparr>"

definition get_value :: "cell \<Rightarrow> int" where
  "get_value c = cvalue c"

definition reset_time :: "cell \<Rightarrow> cell \<times> emission list" where
  "reset_time c = (c\<lparr>alive_time := 0\<rparr>, [])"

definition toggle_value :: "cell \<Rightarrow> cell \<times> emission list" where
  "toggle_value c =
     (let c1 = c\<lparr>cvalue := (if cvalue c = 0 then 1 else 0)\<rparr>;
          c2 = (if cvalue c1 = 0 then fst (reset_time c1) else c1)
      in (c2, [(cvalue c2, alive_time c2)]))"

definition get_time :: "cell \<Rightarrow> int" where
  "get_time c = alive_time c"

definition increase_time :: "cell \<Rightarrow> cell \<times> emission list" where
  "increase_time c =
     (let c1 = c\<lparr>alive_time := alive_time c + 1\<rparr>
      in (c1, [(cvalue c1, alive_time c1)]))"

definition set_time :: "int \<Rightarrow> cell \<Rightarrow> cell \<times> emission list" where
  "set_time v c = (c\<lparr>alive_time := v\<rparr>, [])"

section \<open>class Grid\<close>

record grid =
  rows :: int
  cols :: int
  cells :: "cell list list"
  sleep :: pyfloat

text \<open>
  The state a method of \<^verbatim>\<open>Grid\<close> runs in: the grid, and every emission of its cells so far,
  each with the position of the cell that emitted it. A statement returns the exception it
  raised, if any, and the state it leaves.
\<close>

type_synonym notification = "(nat \<times> nat) \<times> emission"

type_synonym state = "grid \<times> notification list"

type_synonym stmt = "state \<Rightarrow> py_error option \<times> state"

definition seq :: "stmt \<Rightarrow> stmt \<Rightarrow> stmt" where
  "seq a b s = (case a s of (Some e, s') \<Rightarrow> (Some e, s') | (None, s') \<Rightarrow> b s')"

fun for_each :: "'a list \<Rightarrow> ('a \<Rightarrow> stmt) \<Rightarrow> stmt" where
  "for_each [] body s = (None, s)"
| "for_each (x # xs) body s =
     (case body x s of (Some e, s') \<Rightarrow> (Some e, s') | (None, s') \<Rightarrow> for_each xs body s')"

text \<open>The constructor: \<open>rows\<close> lists of \<open>cols\<close> fresh cells each, and the default delay.\<close>

definition Grid :: "int \<Rightarrow> int \<Rightarrow> grid" where
  "Grid r c =
     \<lparr>rows = r, cols = c,
      cells = map (\<lambda>row. map (\<lambda>col. Cell) (py_range 0 c)) (py_range 0 r),
      sleep = py_float_literal 3 2\<rparr>"

definition get_cell :: "grid \<Rightarrow> int \<Rightarrow> int \<Rightarrow> py_error + cell" where
  "get_cell g row col = bind_r (py_getitem (cells g) row) (\<lambda>r. py_getitem r col)"

definition get_dimensions :: "grid \<Rightarrow> int \<times> int" where
  "get_dimensions g = (rows g, cols g)"

text \<open>
  \<^verbatim>\<open>self._cells[row][col].m()\<close>: the cell is looked up (which may raise), the method changes
  that cell where it is, and its emissions are recorded.
\<close>

definition call_cell :: "int \<Rightarrow> int \<Rightarrow> (cell \<Rightarrow> cell \<times> emission list) \<Rightarrow> stmt" where
  "call_cell row col m s =
     (case py_pos (length (cells (fst s))) row of
        Inl e \<Rightarrow> (Some e, s)
      | Inr i \<Rightarrow>
          (case py_pos (length (cells (fst s) ! i)) col of
             Inl e \<Rightarrow> (Some e, s)
           | Inr j \<Rightarrow>
               (let (c', evs) = m (cells (fst s) ! i ! j)
                in (None,
                    ((fst s)\<lparr>cells := (cells (fst s))[i := (cells (fst s) ! i)[j := c']]\<rparr>,
                     snd s @ map (Pair (i, j)) evs)))))"

definition reset :: stmt where
  "reset s =
     for_each (py_range 0 (rows (fst s)))
       (\<lambda>row s1. for_each (py_range 0 (cols (fst s1)))
          (\<lambda>col s2.
             case get_cell (fst s2) row col of
               Inl e \<Rightarrow> (Some e, s2)
             | Inr c \<Rightarrow> if get_value c = 1 then call_cell row col toggle_value s2 else (None, s2))
          s1)
       s"

text \<open>\<^verbatim>\<open>count += self._cells[row][col].get_value()\<close>\<close>

definition add_value :: "grid \<Rightarrow> int \<Rightarrow> int \<Rightarrow> int \<Rightarrow> py_error + int" where
  "add_value g row col count = bind_r (get_cell g row col) (\<lambda>c. Inr (count + get_value c))"

definition alive_neighbors :: "grid \<Rightarrow> int \<Rightarrow> int \<Rightarrow> py_error + int" where
  "alive_neighbors g row col =
     bind_r
       (if row > 0 then
          bind_r (add_value g (row - 1) col 0) (\<lambda>count.
          bind_r (if col > 0 then add_value g (row - 1) (col - 1) count else Inr count) (\<lambda>count.
          if col < cols g - 1 then add_value g (row - 1) (col + 1) count else Inr count))
        else Inr 0) (\<lambda>count.
     bind_r
       (if row < rows g - 1 then
          bind_r (add_value g (row + 1) col count) (\<lambda>count.
          bind_r (if col > 0 then add_value g (row + 1) (col - 1) count else Inr count) (\<lambda>count.
          if col < cols g - 1 then add_value g (row + 1) (col + 1) count else Inr count))
        else Inr count) (\<lambda>count.
     bind_r (if col > 0 then add_value g row (col - 1) count else Inr count) (\<lambda>count.
     if col < cols g - 1 then add_value g row (col + 1) count else Inr count)))"

text \<open>The three lists of \<^verbatim>\<open>list_of_changes\<close>, each in the order the cells were appended.\<close>

record changes =
  birth :: "(int \<times> int) list"
  survival :: "(int \<times> int) list"
  death :: "(int \<times> int) list"

text \<open>The body of the two compute loops of \<^verbatim>\<open>update_grid\<close>, for one coordinate.\<close>

definition classify :: "grid \<Rightarrow> int \<Rightarrow> int \<Rightarrow> changes \<Rightarrow> py_error + changes" where
  "classify g row col ch =
     bind_r (alive_neighbors g row col) (\<lambda>cell_neighbors.
     bind_r (get_cell g row col) (\<lambda>c.
       if get_value c \<noteq> 0 then
         (if cell_neighbors = 2 \<or> cell_neighbors = 3
          then Inr (ch\<lparr>survival := survival ch @ [(row, col)]\<rparr>)
          else Inr (ch\<lparr>death := death ch @ [(row, col)]\<rparr>))
       else
         bind_r (get_cell g row col) (\<lambda>c'.
           if get_value c' = 0 \<and> cell_neighbors = 3
           then Inr (ch\<lparr>birth := birth ch @ [(row, col)]\<rparr>)
           else Inr ch)))"

definition compute_changes :: "grid \<Rightarrow> py_error + changes" where
  "compute_changes g =
     for_acc (py_range 0 (rows g))
       (\<lambda>row. for_acc (py_range 0 (cols g)) (\<lambda>col. classify g row col))
       \<lparr>birth = [], survival = [], death = []\<rparr>"

text \<open>The three commit loops of \<^verbatim>\<open>update_grid\<close>.\<close>

definition commit_changes :: "changes \<Rightarrow> stmt" where
  "commit_changes ch =
     seq (for_each (birth ch) (\<lambda>coords. call_cell (fst coords) (snd coords) toggle_value))
    (seq (for_each (survival ch) (\<lambda>coords. call_cell (fst coords) (snd coords) increase_time))
         (for_each (death ch)
            (\<lambda>coords. seq (call_cell (fst coords) (snd coords) toggle_value)
                          (call_cell (fst coords) (snd coords) reset_time))))"

definition update_grid :: stmt where
  "update_grid s =
     (case compute_changes (fst s) of
        Inl e \<Rightarrow> (Some e, s)
      | Inr ch \<Rightarrow> commit_changes ch s)"

definition get_sleep :: "grid \<Rightarrow> pyfloat" where
  "get_sleep g = sleep g"

text \<open>
  \<^verbatim>\<open>self._sleep = round(1/fps, 3)\<close>: the division, then the rounding, then the assignment;
  an exception of the first two leaves the grid as it was.
\<close>

definition set_sleep :: "int \<Rightarrow> stmt" where
  "set_sleep fps s =
     (case bind_r (py_truediv 1 fps) (\<lambda>q. py_round q 3) of
        Inl e \<Rightarrow> (Some e, s)
      | Inr v \<Rightarrow> (None, ((fst s)\<lparr>sleep := v\<rparr>, snd s)))"

section \<open>Well-formed grids and what is observed of a grid\<close>

text \<open>
  What the constructor establishes and no method changes: \<^verbatim>\<open>_cells\<close> is a list of
  \<^verbatim>\<open>_rows\<close> rows of \<^verbatim>\<open>_cols\<close> cells each, and every \<^verbatim>\<open>_value\<close> is 0 or 1
  (\<^verbatim>\<open>toggle_value\<close> is the only assignment to it).
\<close>

definition grid_shape :: "grid \<Rightarrow> bool" where
  "grid_shape g \<longleftrightarrow>
     length (cells g) = nat (rows g) \<and> (\<forall>r \<in> set (cells g). length r = nat (cols g))"

definition wf_grid :: "grid \<Rightarrow> bool" where
  "wf_grid g \<longleftrightarrow>
     grid_shape g \<and> (\<forall>r \<in> set (cells g). \<forall>c \<in> set r. cvalue c = 0 \<or> cvalue c = 1)"

definition in_bounds :: "grid \<Rightarrow> int \<Rightarrow> int \<Rightarrow> bool" where
  "in_bounds g row col \<longleftrightarrow> 0 \<le> row \<and> row < rows g \<and> 0 \<le> col \<and> col < cols g"

text \<open>The cell at an in-bounds coordinate.\<close>

definition cell_at :: "grid \<Rightarrow> int \<Rightarrow> int \<Rightarrow> cell" where
  "cell_at g row col = cells g ! nat row ! nat col"

text \<open>The outcome, the grid and the notifications a statement leaves.\<close>

definition raised :: "py_error option \<times> state \<Rightarrow> py_error option" where
  "raised r = fst r"

definition grid_of :: "py_error option \<times> state \<Rightarrow> grid" where
  "grid_of r = fst (snd r)"

definition log_of :: "py_error option \<times> state \<Rightarrow> notification list" where
  "log_of r = snd (snd r)"

text \<open>
  The value of the cell at a coordinate, 0 where the grid has no cell, and the count of
  alive cells among the eight coordinates around \<open>(row, col)\<close>.
\<close>

definition value_at :: "grid \<Rightarrow> int \<Rightarrow> int \<Rightarrow> int" where
  "value_at g row col = (if in_bounds g row col then cvalue (cell_at g row col) else 0)"

definition moore_count :: "grid \<Rightarrow> int \<Rightarrow> int \<Rightarrow> int" where
  "moore_count g row col =
     value_at g (row - 1) (col - 1) + value_at g (row - 1) col + value_at g (row - 1) (col + 1) +
     value_at g row (col - 1) + value_at g row (col + 1) +
     value_at g (row + 1) (col - 1) + value_at g (row + 1) col + value_at g (row + 1) (col + 1)"

text \<open>The rule of the Game of Life on one cell, given the count of its alive neighbours.\<close>

definition next_cell :: "cell \<Rightarrow> int \<Rightarrow> cell" where
  "next_cell c n =
     (if cvalue c \<noteq> 0 then
        (if n = 2 \<or> n = 3 then c\<lparr>alive_time := alive_time c + 1\<rparr>
         else c\<lparr>cvalue := 0, alive_time := 0\<rparr>)
      else if n = 3 then c\<lparr>cvalue := 1\<rparr> else c)"

text \<open>The coordinates of the alive cells of a grid.\<close>

definition alive_cells :: "grid \<Rightarrow> (int \<times> int) set" where
  "alive_cells g = {(row, col). in_bounds g row col \<and> cvalue (cell_at g row col) = 1}"

section \<open>Example grids\<close>

text \<open>
  Grids built as a caller builds them: from the constructor, by \<^verbatim>\<open>toggle_value\<close> (and
  \<^verbatim>\<open>set_time\<close>) on the cells that \<^verbatim>\<open>get_cell\<close> returns.
\<close>

definition make_alive :: "(int \<times> int) list \<Rightarrow> grid \<Rightarrow> grid" where
  "make_alive ps g =
     grid_of (for_each ps (\<lambda>coords. call_cell (fst coords) (snd coords) toggle_value) (g, []))"

definition blinker :: grid where
  "blinker = make_alive [(1, 1), (1, 2), (1, 3)] (Grid 5 5)"

definition single_alive :: grid where
  "single_alive = make_alive [(2, 2)] (Grid 5 5)"

definition stale_corner :: grid where
  "stale_corner =
     grid_of (call_cell 1 1 (set_time 5) (make_alive [(0, 0), (0, 1), (1, 0)] (Grid 2 2), []))"

definition stale_dead :: grid where
  "stale_dead = grid_of (call_cell 0 0 (set_time 5) (Grid 2 2, []))"

section \<open>Definitions used in the proofs\<close>

definition put_cell :: "grid \<Rightarrow> int \<Rightarrow> int \<Rightarrow> cell \<Rightarrow> grid" where
  "put_cell g row col c =
     g\<lparr>cells := (cells g)[nat row := (cells g ! nat row)[nat col := c]]\<rparr>"

definition all_coords :: "grid \<Rightarrow> (int \<times> int) list" where
  "all_coords g = concat (map (\<lambda>row. map (Pair row) (py_range 0 (cols g))) (py_range 0 (rows g)))"

definition is_birth :: "grid \<Rightarrow> int \<times> int \<Rightarrow> bool" where
  "is_birth g p \<longleftrightarrow>
     cvalue (cell_at g (fst p) (snd p)) = 0 \<and> moore_count g (fst p) (snd p) = 3"

definition is_survival :: "grid \<Rightarrow> int \<times> int \<Rightarrow> bool" where
  "is_survival g p \<longleftrightarrow>
     cvalue (cell_at g (fst p) (snd p)) \<noteq> 0 \<and>
     (moore_count g (fst p) (snd p) = 2 \<or> moore_count g (fst p) (snd p) = 3)"

definition is_death :: "grid \<Rightarrow> int \<times> int \<Rightarrow> bool" where
  "is_death g p \<longleftrightarrow>
     cvalue (cell_at g (fst p) (snd p)) \<noteq> 0 \<and>
     \<not> (moore_count g (fst p) (snd p) = 2 \<or> moore_count g (fst p) (snd p) = 3)"

definition select_changes :: "grid \<Rightarrow> (int \<times> int) list \<Rightarrow> changes" where
  "select_changes g ps =
     \<lparr>birth = filter (is_birth g) ps, survival = filter (is_survival g) ps,
      death = filter (is_death g) ps\<rparr>"

definition cells_mapped :: "grid \<Rightarrow> (int \<Rightarrow> int \<Rightarrow> cell \<Rightarrow> cell) \<Rightarrow> grid \<Rightarrow> bool" where
  "cells_mapped g H g' \<longleftrightarrow>
     grid_shape g' \<and> rows g' = rows g \<and> cols g' = cols g \<and> sleep g' = sleep g \<and>
     (\<forall>row col. in_bounds g row col \<longrightarrow> cell_at g' row col = H row col (cell_at g row col))"

definition moore_neighborhood :: "int \<Rightarrow> int \<Rightarrow> (int \<times> int) list" where
  "moore_neighborhood row col =
     [(row - 1, col - 1), (row - 1, col), (row - 1, col + 1),
      (row, col - 1), (row, col + 1),
      (row + 1, col - 1), (row + 1, col), (row + 1, col + 1)]"

definition alive_around :: "grid \<Rightarrow> int \<Rightarrow> int \<Rightarrow> (int \<times> int) set" where
  "alive_around g row col =
     {(r, c). in_bounds g r c \<and> (r, c) \<noteq> (row, col) \<and> \<bar>r - row\<bar> \<le> 1 \<and> \<bar>c - col\<bar> \<le> 1 \<and>
              get_value (cell_at g r c) = 1}"

definition count_in :: "(int \<times> int) set \<Rightarrow> int \<Rightarrow> int \<Rightarrow> int" where
  "count_in A row col = sum_list (map (\<lambda>p. if p \<in> A then 1 else 0) (moore_neighborhood row col))"

definition life_step :: "grid \<Rightarrow> (int \<times> int) set \<Rightarrow> (int \<times> int) set" where
  "life_step g A =
     {(row, col). in_bounds g row col \<and>
        (if (row, col) \<in> A then count_in A row col = 2 \<or> count_in A row col = 3
         else count_in A row col = 3)}"

definition reset_cell :: "cell \<Rightarrow> cell" where
  "reset_cell c = (if get_value c = 1 then fst (toggle_value c) else c)"

section \<open>Expressions and subscripts\<close>

lemma bind_r_Inr [simp]: "bind_r (Inr x) f = f x"
  by (simp add: bind_r_def)

lemma bind_r_Inl [simp]: "bind_r (Inl e) f = Inl e"
  by (simp add: bind_r_def)

lemma py_pos_cases:
  "py_pos n i =
     (if - int n \<le> i \<and> i < int n then Inr (nat (if i < 0 then int n + i else i))
      else Inl IndexError)"
  by (simp add: py_pos_def)

lemma py_pos_nonneg: "0 \<le> i \<Longrightarrow> i < int n \<Longrightarrow> py_pos n i = Inr (nat i)"
  by (simp add: py_pos_def)

lemma py_range_0: "py_range 0 n = map int [0..<nat n]"
  by (simp add: py_range_def)

lemma distinct_py_range: "distinct (py_range a b)"
  by (simp add: py_range_def distinct_map inj_on_def)

lemma Grid_2_2:
  "Grid 2 2 =
     \<lparr>rows = 2, cols = 2, cells = [[Cell, Cell], [Cell, Cell]], sleep = py_float_literal 3 2\<rparr>"
  by (simp add: Grid_def py_range_def upt_rec)

lemma grid_shape_Grid_2_2: "grid_shape (Grid 2 2)"
  by (simp add: Grid_2_2 grid_shape_def)

lemma get_cell_cases:
  assumes "grid_shape g"
  shows "get_cell g row col =
           (if - rows g \<le> row \<and> row < rows g \<and> - cols g \<le> col \<and> col < cols g
            then Inr (cell_at g (if row < 0 then rows g + row else row)
                                (if col < 0 then cols g + col else col))
            else Inl IndexError)"
proof (cases "- rows g \<le> row \<and> row < rows g")
  case False
  then have "py_pos (length (cells g)) row = Inl IndexError"
    using assms by (auto simp add: grid_shape_def py_pos_cases)
  with False show ?thesis
    by (auto simp add: get_cell_def py_getitem_def)
next
  case True
  define i where "i = nat (if row < 0 then rows g + row else row)"
  have len: "int (length (cells g)) = rows g"
    using assms True by (simp add: grid_shape_def)
  have pos: "py_pos (length (cells g)) row = Inr i"
    using True len by (simp add: py_pos_cases i_def)
  have "i < length (cells g)"
    using True len by (auto simp add: i_def)
  then have rowlen: "int (length (cells g ! i)) = max 0 (cols g)"
    using assms by (simp add: grid_shape_def)
  have "get_cell g row col = py_getitem (cells g ! i) col"
    by (simp add: get_cell_def py_getitem_def pos)
  also have "\<dots> = (if - cols g \<le> col \<and> col < cols g
                    then Inr (cells g ! i ! nat (if col < 0 then cols g + col else col))
                    else Inl IndexError)"
    using rowlen by (auto simp add: py_getitem_def py_pos_cases)
  finally show ?thesis
    using True by (simp add: cell_at_def i_def)
qed

section \<open>Loops, cells and the two phases of update_grid\<close>

lemma for_acc_inv_aux:
  assumes "Inv pre acc"
    and "\<And>seen x rest a. xs = seen @ x # rest \<Longrightarrow> Inv (pre @ seen) a \<Longrightarrow>
           \<exists>a'. body x a = Inr a' \<and> Inv (pre @ seen @ [x]) a'"
  shows "\<exists>a'. for_acc xs body acc = Inr a' \<and> Inv (pre @ xs) a'"
  using assms
proof (induction xs arbitrary: pre acc)
  case Nil
  then show ?case by simp
next
  case (Cons x xs)
  from Cons.prems(2) [of "[]" x xs acc] Cons.prems(1)
  obtain a1 where a1: "body x acc = Inr a1" "Inv (pre @ [x]) a1"
    by auto
  have "\<exists>a'. for_acc xs body a1 = Inr a' \<and> Inv ((pre @ [x]) @ xs) a'"
  proof (rule Cons.IH [OF a1(2)])
    fix seen y rest a
    assume "xs = seen @ y # rest" "Inv ((pre @ [x]) @ seen) a"
    then show "\<exists>a'. body y a = Inr a' \<and> Inv ((pre @ [x]) @ seen @ [y]) a'"
      using Cons.prems(2) [of "x # seen" y rest a] by simp
  qed
  then show ?case
    by (simp add: a1(1))
qed

lemma for_acc_inv:
  assumes "Inv [] acc"
    and "\<And>seen x rest a. xs = seen @ x # rest \<Longrightarrow> Inv seen a \<Longrightarrow>
           \<exists>a'. body x a = Inr a' \<and> Inv (seen @ [x]) a'"
  shows "\<exists>a'. for_acc xs body acc = Inr a' \<and> Inv xs a'"
  using for_acc_inv_aux [of Inv "[]" acc xs body] assms by simp

lemma for_each_inv_aux:
  assumes "Inv pre s"
    and "\<And>seen x rest t. xs = seen @ x # rest \<Longrightarrow> Inv (pre @ seen) t \<Longrightarrow>
           fst (body x t) = None \<and> Inv (pre @ seen @ [x]) (snd (body x t))"
  shows "fst (for_each xs body s) = None \<and> Inv (pre @ xs) (snd (for_each xs body s))"
  using assms
proof (induction xs arbitrary: pre s)
  case Nil
  then show ?case by simp
next
  case (Cons x xs)
  from Cons.prems(2) [of "[]" x xs s] Cons.prems(1)
  have b: "fst (body x s) = None" "Inv (pre @ [x]) (snd (body x s))"
    by auto
  have "fst (for_each xs body (snd (body x s))) = None \<and>
        Inv ((pre @ [x]) @ xs) (snd (for_each xs body (snd (body x s))))"
  proof (rule Cons.IH [OF b(2)])
    fix seen y rest t
    assume "xs = seen @ y # rest" "Inv ((pre @ [x]) @ seen) t"
    then show "fst (body y t) = None \<and> Inv ((pre @ [x]) @ seen @ [y]) (snd (body y t))"
      using Cons.prems(2) [of "x # seen" y rest t] by simp
  qed
  then show ?case
    using b(1) by (cases "body x s") simp
qed

lemma for_each_inv:
  assumes "Inv [] s"
    and "\<And>seen x rest t. xs = seen @ x # rest \<Longrightarrow> Inv seen t \<Longrightarrow>
           fst (body x t) = None \<and> Inv (seen @ [x]) (snd (body x t))"
  shows "fst (for_each xs body s) = None \<and> Inv xs (snd (for_each xs body s))"
  using for_each_inv_aux [of Inv "[]" s xs body] assms by simp

lemma grid_shape_nth:
  "grid_shape g \<longleftrightarrow>
     length (cells g) = nat (rows g) \<and> (\<forall>i < length (cells g). length (cells g ! i) = nat (cols g))"
  by (simp add: grid_shape_def all_set_conv_all_nth)

lemma grid_shape_put_cell:
  assumes "grid_shape g"
  shows "grid_shape (put_cell g row col c)"
proof -
  have "length ((cells g)[nat row := (cells g ! nat row)[nat col := c]] ! i) = nat (cols g)"
    if "i < length (cells g)" for i
    using that assms by (cases "i = nat row") (simp_all add: grid_shape_nth)
  then show ?thesis
    using assms by (simp add: grid_shape_nth put_cell_def)
qed

lemma put_cell_fields [simp]:
  "rows (put_cell g row col c) = rows g"
  "cols (put_cell g row col c) = cols g"
  "sleep (put_cell g row col c) = sleep g"
  by (simp_all add: put_cell_def)

lemma in_bounds_put_cell [simp]: "in_bounds (put_cell g row col c) r k = in_bounds g r k"
  by (simp add: in_bounds_def)

lemma cell_at_put_cell:
  assumes "grid_shape g" "in_bounds g row col" "in_bounds g r k"
  shows "cell_at (put_cell g row col c) r k = (if r = row \<and> k = col then c else cell_at g r k)"
proof -
  have "nat row < length (cells g)" "nat r < length (cells g)"
    using assms by (simp_all add: grid_shape_def in_bounds_def)
  moreover have "nat col < length (cells g ! nat row)"
    using assms by (simp add: grid_shape_def in_bounds_def)
  moreover have "nat r = nat row \<longleftrightarrow> r = row" "nat k = nat col \<longleftrightarrow> k = col"
    using assms by (auto simp add: in_bounds_def)
  ultimately show ?thesis
    by (auto simp add: cell_at_def put_cell_def nth_list_update)
qed

lemma call_cell_in_bounds:
  assumes "grid_shape g" "in_bounds g row col"
  shows "call_cell row col m (g, ns) =
           (None, (put_cell g row col (fst (m (cell_at g row col))),
                   ns @ map (Pair (nat row, nat col)) (snd (m (cell_at g row col)))))"
proof -
  have "py_pos (length (cells g)) row = Inr (nat row)"
    using assms by (simp add: py_pos_nonneg grid_shape_def in_bounds_def)
  moreover have "py_pos (length (cells g ! nat row)) col = Inr (nat col)"
    using assms by (simp add: py_pos_nonneg grid_shape_def in_bounds_def)
  ultimately show ?thesis
    by (simp add: call_cell_def put_cell_def cell_at_def split: prod.splits)
qed

lemma set_py_range_0: "set (py_range 0 n) = {0..<n}"
proof (cases "0 \<le> n")
  case True
  then have "int ` {0..<nat n} = {0..<n}"
    by (simp add: image_int_atLeastLessThan)
  then show ?thesis
    by (simp add: py_range_0)
next
  case False
  then show ?thesis
    by (simp add: py_range_0)
qed

lemma concat_map_Pair: "concat (map (\<lambda>x. map (Pair x) ys) xs) = List.product xs ys"
  by (induction xs) simp_all

lemma all_coords_product:
  "all_coords g = List.product (py_range 0 (rows g)) (py_range 0 (cols g))"
  by (simp add: all_coords_def concat_map_Pair)

lemma set_all_coords: "set (all_coords g) = {p. in_bounds g (fst p) (snd p)}"
  by (auto simp add: all_coords_product set_py_range_0 in_bounds_def)

lemma distinct_all_coords: "distinct (all_coords g)"
  by (simp add: all_coords_product distinct_product distinct_py_range)

lemma get_cell_in_bounds:
  assumes "grid_shape g" "in_bounds g row col"
  shows "get_cell g row col = Inr (cell_at g row col)"
  using assms
  by (simp add: get_cell_def py_getitem_def in_bounds_def grid_shape_def py_pos_nonneg cell_at_def)

lemma add_value_in_bounds:
  "grid_shape g \<Longrightarrow> in_bounds g row col \<Longrightarrow> add_value g row col n = Inr (n + value_at g row col)"
  by (simp add: add_value_def get_cell_in_bounds value_at_def get_value_def)

lemma alive_neighbors_moore:
  assumes "grid_shape g" "in_bounds g row col"
  shows "alive_neighbors g row col = Inr (moore_count g row col)"
proof -
  have b: "0 \<le> row" "row < rows g" "0 \<le> col" "col < cols g"
    using assms(2) by (simp_all add: in_bounds_def)
  have out: "\<And>r c. \<not> in_bounds g r c \<Longrightarrow> value_at g r c = 0"
    by (simp add: value_at_def)
  have inb: "\<And>r c n. in_bounds g r c \<Longrightarrow> add_value g r c n = Inr (n + value_at g r c)"
    using assms(1) by (rule add_value_in_bounds)
  show ?thesis
    unfolding alive_neighbors_def moore_count_def
    using b
    by (cases "row > 0"; cases "row < rows g - 1"; cases "col > 0"; cases "col < cols g - 1")
       (simp_all add: inb out in_bounds_def)
qed

lemma classify_in_bounds:
  assumes "grid_shape g" "in_bounds g row col"
  shows "classify g row col (select_changes g ps) = Inr (select_changes g (ps @ [(row, col)]))"
  using assms
  by (simp add: classify_def alive_neighbors_moore get_cell_in_bounds get_value_def
        select_changes_def is_birth_def is_survival_def is_death_def)

lemma compute_row:
  assumes "grid_shape g" "0 \<le> row" "row < rows g"
  shows "for_acc (py_range 0 (cols g)) (\<lambda>col. classify g row col) (select_changes g ps)
           = Inr (select_changes g (ps @ map (Pair row) (py_range 0 (cols g))))"
proof -
  have "\<exists>a'. for_acc (py_range 0 (cols g)) (\<lambda>col. classify g row col) (select_changes g ps) = Inr a'
          \<and> a' = select_changes g (ps @ map (Pair row) (py_range 0 (cols g)))"
  proof (rule for_acc_inv [where Inv = "\<lambda>seen a. a = select_changes g (ps @ map (Pair row) seen)"])
    show "select_changes g ps = select_changes g (ps @ map (Pair row) [])"
      by simp
  next
    fix seen x rest a
    assume xs: "py_range 0 (cols g) = seen @ x # rest"
      and a: "a = select_changes g (ps @ map (Pair row) seen)"
    have "x \<in> set (py_range 0 (cols g))"
      by (simp add: xs)
    then have "in_bounds g row x"
      using assms by (simp add: set_py_range_0 in_bounds_def)
    then show "\<exists>a'. classify g row x a = Inr a' \<and>
                 a' = select_changes g (ps @ map (Pair row) (seen @ [x]))"
      using assms(1) a by (simp add: classify_in_bounds)
  qed
  then show ?thesis by simp
qed

lemma compute_changes_eq:
  assumes "grid_shape g"
  shows "compute_changes g = Inr (select_changes g (all_coords g))"
proof -
  let ?coords = "\<lambda>rs. concat (map (\<lambda>row. map (Pair row) (py_range 0 (cols g))) rs)"
  have "\<exists>a'. for_acc (py_range 0 (rows g))
               (\<lambda>row. for_acc (py_range 0 (cols g)) (\<lambda>col. classify g row col))
               (select_changes g []) = Inr a'
          \<and> a' = select_changes g (?coords (py_range 0 (rows g)))"
  proof (rule for_acc_inv [where Inv = "\<lambda>seen a. a = select_changes g (?coords seen)"])
    show "select_changes g [] = select_changes g (?coords [])"
      by simp
  next
    fix seen x rest a
    assume xs: "py_range 0 (rows g) = seen @ x # rest"
      and a: "a = select_changes g (?coords seen)"
    have "x \<in> set (py_range 0 (rows g))"
      by (simp add: xs)
    then have "0 \<le> x" "x < rows g"
      by (simp_all add: set_py_range_0)
    then show "\<exists>a'. for_acc (py_range 0 (cols g)) (\<lambda>col. classify g x col) a = Inr a' \<and>
                 a' = select_changes g (?coords (seen @ [x]))"
      using assms a by (simp add: compute_row)
  qed
  then show ?thesis
    by (simp add: compute_changes_def all_coords_def select_changes_def)
qed

lemma cells_mapped_refl: "grid_shape g \<Longrightarrow> cells_mapped g (\<lambda>row col c. c) g"
  by (simp add: cells_mapped_def)

lemma cells_mapped_trans:
  assumes "cells_mapped g H1 g1" "cells_mapped g1 H2 g2"
  shows "cells_mapped g (\<lambda>row col c. H2 row col (H1 row col c)) g2"
  using assms by (simp add: cells_mapped_def in_bounds_def)

lemma cells_mapped_cong:
  assumes "cells_mapped g H g'"
    and "\<And>row col. in_bounds g row col \<Longrightarrow> H row col (cell_at g row col) = H' row col (cell_at g row col)"
  shows "cells_mapped g H' g'"
  using assms by (simp add: cells_mapped_def)

lemma cells_mapped_put_cell:
  assumes "grid_shape g" "in_bounds g row col"
  shows "cells_mapped g (\<lambda>r k c. if r = row \<and> k = col then F c else c)
           (put_cell g row col (F (cell_at g row col)))"
  using assms by (simp add: cells_mapped_def grid_shape_put_cell cell_at_put_cell)

lemma seq_ok: "fst (a s) = None \<Longrightarrow> seq a b s = b (snd (a s))"
  by (cases "a s") (simp add: seq_def)

lemma for_each_cells:
  assumes shape: "grid_shape g"
    and inb: "\<forall>p \<in> set ps. in_bounds g (fst p) (snd p)"
    and dist: "distinct ps"
    and body: "\<And>p g' ns'. p \<in> set ps \<Longrightarrow> grid_shape g' \<Longrightarrow> in_bounds g' (fst p) (snd p) \<Longrightarrow>
                 fst (body p (g', ns')) = None \<and>
                 fst (snd (body p (g', ns'))) = put_cell g' (fst p) (snd p) (F (cell_at g' (fst p) (snd p)))"
  shows "fst (for_each ps body (g, ns)) = None \<and>
         cells_mapped g (\<lambda>row col c. if (row, col) \<in> set ps then F c else c)
           (fst (snd (for_each ps body (g, ns))))"
proof (rule for_each_inv
    [where Inv = "\<lambda>seen t. cells_mapped g (\<lambda>row col c. if (row, col) \<in> set seen then F c else c) (fst t)"])
  show "cells_mapped g (\<lambda>row col c. if (row, col) \<in> set [] then F c else c) (fst (g, ns))"
    using shape by (simp add: cells_mapped_refl)
next
  fix seen x rest and t :: state
  assume ps: "ps = seen @ x # rest"
    and inv: "cells_mapped g (\<lambda>row col c. if (row, col) \<in> set seen then F c else c) (fst t)"
  obtain g' ns' where t: "t = (g', ns')"
    by (cases t)
  have x: "x \<in> set ps" "x \<notin> set seen"
    using ps dist by auto
  have xb: "in_bounds g (fst x) (snd x)"
    using inb x(1) by simp
  have g': "grid_shape g'" "in_bounds g' (fst x) (snd x)"
    using inv xb by (simp_all add: cells_mapped_def t in_bounds_def)
  note b = body [OF x(1) g']
  have "cells_mapped g' (\<lambda>r k c. if r = fst x \<and> k = snd x then F c else c)
          (put_cell g' (fst x) (snd x) (F (cell_at g' (fst x) (snd x))))"
    using g' by (rule cells_mapped_put_cell)
  with inv have "cells_mapped g
      (\<lambda>row col c. if row = fst x \<and> col = snd x
                    then F (if (row, col) \<in> set seen then F c else c)
                    else (if (row, col) \<in> set seen then F c else c))
      (put_cell g' (fst x) (snd x) (F (cell_at g' (fst x) (snd x))))"
    unfolding t fst_conv by (rule cells_mapped_trans)
  then have "cells_mapped g (\<lambda>row col c. if (row, col) \<in> set (seen @ [x]) then F c else c)
      (put_cell g' (fst x) (snd x) (F (cell_at g' (fst x) (snd x))))"
  proof (rule cells_mapped_cong)
    fix row col
    show "(if row = fst x \<and> col = snd x
           then F (if (row, col) \<in> set seen then F (cell_at g row col) else cell_at g row col)
           else if (row, col) \<in> set seen then F (cell_at g row col) else cell_at g row col)
          = (if (row, col) \<in> set (seen @ [x]) then F (cell_at g row col) else cell_at g row col)"
      using x(2) by (cases x) auto
  qed
  then show "fst (body x t) = None \<and>
      cells_mapped g (\<lambda>row col c. if (row, col) \<in> set (seen @ [x]) then F c else c)
        (fst (snd (body x t)))"
    using b by (simp add: t)
qed

lemma call_cell_body:
  assumes "grid_shape g" "in_bounds g row col"
  shows "fst (call_cell row col m (g, ns)) = None \<and>
         fst (snd (call_cell row col m (g, ns))) = put_cell g row col (fst (m (cell_at g row col)))"
  using assms by (simp add: call_cell_in_bounds)

lemma put_cell_twice:
  assumes "grid_shape g" "in_bounds g row col"
  shows "put_cell (put_cell g row col x) row col y = put_cell g row col y"
proof -
  have "nat row < length (cells g)"
    using assms by (simp add: grid_shape_def in_bounds_def)
  then show ?thesis
    by (simp add: put_cell_def)
qed

lemma kill_body:
  assumes "grid_shape g" "in_bounds g row col"
  shows "fst (seq (call_cell row col toggle_value) (call_cell row col reset_time) (g, ns)) = None \<and>
         fst (snd (seq (call_cell row col toggle_value) (call_cell row col reset_time) (g, ns)))
           = put_cell g row col (fst (reset_time (fst (toggle_value (cell_at g row col)))))"
proof -
  let ?g1 = "put_cell g row col (fst (toggle_value (cell_at g row col)))"
  have 1: "grid_shape ?g1" "in_bounds ?g1 row col"
    using assms by (simp_all add: grid_shape_put_cell)
  have 2: "cell_at ?g1 row col = fst (toggle_value (cell_at g row col))"
    using assms by (simp add: cell_at_put_cell)
  show ?thesis
    using assms
    by (simp add: seq_def call_cell_in_bounds [OF assms] call_cell_in_bounds [OF 1] 2 put_cell_twice)
qed

lemma set_filter_all_coords:
  "p \<in> set (filter P (all_coords g)) \<longleftrightarrow> in_bounds g (fst p) (snd p) \<and> P p"
  by (simp add: set_all_coords)

lemma update_grid_cells:
  assumes shape: "grid_shape g"
  shows "raised (update_grid (g, ns)) = None \<and>
         cells_mapped g (\<lambda>row col c. next_cell c (moore_count g row col))
           (grid_of (update_grid (g, ns)))"
proof -
  let ?B = "filter (is_birth g) (all_coords g)"
  let ?S = "filter (is_survival g) (all_coords g)"
  let ?D = "filter (is_death g) (all_coords g)"
  let ?L1 = "for_each ?B (\<lambda>coords. call_cell (fst coords) (snd coords) toggle_value)"
  let ?L2 = "for_each ?S (\<lambda>coords. call_cell (fst coords) (snd coords) increase_time)"
  let ?L3 = "for_each ?D (\<lambda>coords. seq (call_cell (fst coords) (snd coords) toggle_value)
                                        (call_cell (fst coords) (snd coords) reset_time))"
  let ?H1 = "\<lambda>row col c. if (row, col) \<in> set ?B then fst (toggle_value c) else c"
  let ?H2 = "\<lambda>row col c. if (row, col) \<in> set ?S then fst (increase_time c) else c"
  let ?H3 = "\<lambda>row col c. if (row, col) \<in> set ?D then fst (reset_time (fst (toggle_value c))) else c"
  have upd: "update_grid (g, ns) = seq ?L1 (seq ?L2 ?L3) (g, ns)"
    using shape
    by (simp add: update_grid_def compute_changes_eq commit_changes_def select_changes_def)
  obtain g1 ns1 where s1: "snd (?L1 (g, ns)) = (g1, ns1)"
    by (cases "snd (?L1 (g, ns))")
  have 1: "fst (?L1 (g, ns)) = None" "cells_mapped g ?H1 g1"
    using for_each_cells [of g ?B "\<lambda>coords. call_cell (fst coords) (snd coords) toggle_value"
        "\<lambda>c. fst (toggle_value c)" ns] shape s1
    by (simp_all add: set_all_coords distinct_all_coords call_cell_body)
  have g1: "grid_shape g1" "\<And>row col. in_bounds g1 row col = in_bounds g row col"
    using 1(2) by (simp_all add: cells_mapped_def in_bounds_def)
  obtain g2 ns2 where s2: "snd (?L2 (g1, ns1)) = (g2, ns2)"
    by (cases "snd (?L2 (g1, ns1))")
  have 2: "fst (?L2 (g1, ns1)) = None" "cells_mapped g1 ?H2 g2"
    using for_each_cells [of g1 ?S "\<lambda>coords. call_cell (fst coords) (snd coords) increase_time"
        "\<lambda>c. fst (increase_time c)" ns1] g1 s2
    by (simp_all add: set_all_coords distinct_all_coords call_cell_body)
  have g2: "grid_shape g2" "\<And>row col. in_bounds g2 row col = in_bounds g row col"
    using 2(2) g1(2) by (simp_all add: cells_mapped_def in_bounds_def)
  obtain g3 ns3 where s3: "snd (?L3 (g2, ns2)) = (g3, ns3)"
    by (cases "snd (?L3 (g2, ns2))")
  have 3: "fst (?L3 (g2, ns2)) = None" "cells_mapped g2 ?H3 g3"
    using for_each_cells [of g2 ?D
        "\<lambda>coords. seq (call_cell (fst coords) (snd coords) toggle_value)
                      (call_cell (fst coords) (snd coords) reset_time)"
        "\<lambda>c. fst (reset_time (fst (toggle_value c)))" ns2] g2 s3
    by (simp_all add: set_all_coords distinct_all_coords kill_body)
  have res: "update_grid (g, ns) = ?L3 (g2, ns2)"
    using 1(1) 2(1) s1 s2 by (simp add: upd seq_ok)
  have "cells_mapped g (\<lambda>row col c. ?H3 row col (?H2 row col (?H1 row col c))) g3"
    by (rule cells_mapped_trans [OF cells_mapped_trans [OF 1(2) 2(2)] 3(2)])
  then have "cells_mapped g (\<lambda>row col c. next_cell c (moore_count g row col)) g3"
  proof (rule cells_mapped_cong)
    fix row col
    assume "in_bounds g row col"
    then show "?H3 row col (?H2 row col (?H1 row col (cell_at g row col)))
                 = next_cell (cell_at g row col) (moore_count g row col)"
      by (simp add: set_all_coords is_birth_def is_survival_def is_death_def next_cell_def
            toggle_value_def increase_time_def reset_time_def)
  qed
  then show ?thesis
    using 3(1) s3 by (simp add: res raised_def grid_of_def)
qed

section \<open>The example grids, evaluated\<close>

lemma blinker_eq:
  "blinker =
     \<lparr>rows = 5, cols = 5,
      cells = [[Cell, Cell, Cell, Cell, Cell],
               [Cell, Cell\<lparr>cvalue := 1\<rparr>, Cell\<lparr>cvalue := 1\<rparr>, Cell\<lparr>cvalue := 1\<rparr>, Cell],
               [Cell, Cell, Cell, Cell, Cell],
               [Cell, Cell, Cell, Cell, Cell],
               [Cell, Cell, Cell, Cell, Cell]],
      sleep = py_float_literal 3 2\<rparr>"
  by (simp add: blinker_def make_alive_def Grid_def py_range_def upt_rec call_cell_def py_pos_def
        toggle_value_def Cell_def grid_of_def)

lemma grid_shape_blinker: "grid_shape blinker"
  by (simp add: blinker_eq grid_shape_def)

lemma single_alive_eq:
  "single_alive =
     \<lparr>rows = 5, cols = 5,
      cells = [[Cell, Cell, Cell, Cell, Cell],
               [Cell, Cell, Cell, Cell, Cell],
               [Cell, Cell, Cell\<lparr>cvalue := 1\<rparr>, Cell, Cell],
               [Cell, Cell, Cell, Cell, Cell],
               [Cell, Cell, Cell, Cell, Cell]],
      sleep = py_float_literal 3 2\<rparr>"
  by (simp add: single_alive_def make_alive_def Grid_def py_range_def upt_rec call_cell_def
        py_pos_def toggle_value_def Cell_def grid_of_def)

lemma wf_grid_single_alive: "wf_grid single_alive"
  by (simp add: single_alive_eq wf_grid_def grid_shape_def Cell_def)

lemma stale_corner_eq:
  "stale_corner =
     \<lparr>rows = 2, cols = 2,
      cells = [[\<lparr>cvalue = 1, alive_time = 0\<rparr>, \<lparr>cvalue = 1, alive_time = 0\<rparr>],
               [\<lparr>cvalue = 1, alive_time = 0\<rparr>, \<lparr>cvalue = 0, alive_time = 5\<rparr>]],
      sleep = py_float_literal 3 2\<rparr>"
  by (simp add: stale_corner_def make_alive_def Grid_2_2 call_cell_def py_pos_def
        toggle_value_def set_time_def Cell_def grid_of_def)

lemmas eval_defs =
  alive_neighbors_def add_value_def get_cell_def py_getitem_def py_pos_def get_value_def
  get_time_def cell_at_def in_bounds_def grid_shape_def

lemmas update_defs =
  update_grid_def compute_changes_def classify_def commit_changes_def seq_def call_cell_def
  toggle_value_def increase_time_def reset_time_def py_range_def upt_rec raised_def grid_of_def

lemma stale_dead_eq:
  "stale_dead =
     \<lparr>rows = 2, cols = 2,
      cells = [[\<lparr>cvalue = 0, alive_time = 5\<rparr>, \<lparr>cvalue = 0, alive_time = 0\<rparr>],
               [\<lparr>cvalue = 0, alive_time = 0\<rparr>, \<lparr>cvalue = 0, alive_time = 0\<rparr>]],
      sleep = py_float_literal 3 2\<rparr>"
  by (simp add: stale_dead_def Grid_2_2 call_cell_def py_pos_def set_time_def Cell_def grid_of_def)

section \<open>Counting neighbours\<close>

lemma wf_grid_shape: "wf_grid g \<Longrightarrow> grid_shape g"
  by (simp add: wf_grid_def)

lemma wf_grid_cvalue:
  assumes "wf_grid g" "in_bounds g r c"
  shows "cvalue (cell_at g r c) = 0 \<or> cvalue (cell_at g r c) = 1"
proof -
  have 1: "nat r < length (cells g)"
    using assms by (simp add: wf_grid_def grid_shape_def in_bounds_def)
  then have 2: "cells g ! nat r \<in> set (cells g)"
    by simp
  then have "nat c < length (cells g ! nat r)"
    using assms by (simp add: wf_grid_def grid_shape_def in_bounds_def)
  then have "cell_at g r c \<in> set (cells g ! nat r)"
    by (simp add: cell_at_def)
  with 2 show ?thesis
    using assms(1) by (auto simp add: wf_grid_def)
qed

lemma value_at_indicator:
  assumes "wf_grid g"
  shows "value_at g r c = (if in_bounds g r c \<and> get_value (cell_at g r c) = 1 then 1 else 0)"
  using wf_grid_cvalue [OF assms, of r c] by (auto simp add: value_at_def get_value_def)

lemma set_moore_neighborhood:
  "set (moore_neighborhood row col) =
     {(r, c). (r, c) \<noteq> (row, col) \<and> \<bar>r - row\<bar> \<le> 1 \<and> \<bar>c - col\<bar> \<le> 1}"
proof -
  have "(r, c) \<in> set (moore_neighborhood row col) \<longleftrightarrow>
          (r, c) \<noteq> (row, col) \<and> \<bar>r - row\<bar> \<le> 1 \<and> \<bar>c - col\<bar> \<le> 1" for r c
  proof -
    have r: "\<bar>r - row\<bar> \<le> 1 \<longleftrightarrow> r = row - 1 \<or> r = row \<or> r = row + 1"
      by arith
    have c: "\<bar>c - col\<bar> \<le> 1 \<longleftrightarrow> c = col - 1 \<or> c = col \<or> c = col + 1"
      by arith
    show ?thesis
      unfolding r c by (auto simp add: moore_neighborhood_def)
  qed
  then show ?thesis
    by auto
qed

lemma distinct_moore_neighborhood: "distinct (moore_neighborhood row col)"
  by (simp add: moore_neighborhood_def)

lemma alive_around_filter:
  "alive_around g row col =
     set (filter (\<lambda>p. in_bounds g (fst p) (snd p) \<and> get_value (cell_at g (fst p) (snd p)) = 1)
            (moore_neighborhood row col))"
  by (auto simp add: alive_around_def set_moore_neighborhood)

lemma length_filter_sum_list:
  "int (length (filter P xs)) = sum_list (map (\<lambda>x. if P x then 1 else 0) xs)"
  by (induction xs) simp_all

lemma moore_count_card:
  assumes "wf_grid g"
  shows "moore_count g row col = int (card (alive_around g row col))"
proof -
  let ?P = "\<lambda>p. in_bounds g (fst p) (snd p) \<and> get_value (cell_at g (fst p) (snd p)) = 1"
  have "card (alive_around g row col) = length (filter ?P (moore_neighborhood row col))"
    unfolding alive_around_filter
    by (rule distinct_card) (simp add: distinct_moore_neighborhood)
  also have "int \<dots> = sum_list (map (\<lambda>p. value_at g (fst p) (snd p)) (moore_neighborhood row col))"
    unfolding length_filter_sum_list value_at_indicator [OF assms] ..
  also have "\<dots> = moore_count g row col"
    by (simp add: moore_neighborhood_def moore_count_def)
  finally show ?thesis
    by simp
qed

lemma card_alive_around_le: "card (alive_around g row col) \<le> 8"
proof -
  have "card (alive_around g row col) \<le> length (moore_neighborhood row col)"
    unfolding alive_around_filter
    by (rule order_trans [OF card_length]) simp
  then show ?thesis
    by (simp add: moore_neighborhood_def)
qed

lemma card_alive_around_corner: "card (alive_around g 0 0) \<le> 3"
proof -
  have "alive_around g 0 0 \<subseteq> {(0, 1), (1, 0), (1, 1)}"
    by (auto simp add: alive_around_def in_bounds_def)
  then have "card (alive_around g 0 0) \<le> card {(0, 1), (1, 0), (1, 1) :: int \<times> int}"
    by (intro card_mono) simp_all
  then show ?thesis
    by simp
qed

section \<open>One generation on the set of alive cells\<close>

lemma wf_grid_iff:
  "wf_grid g \<longleftrightarrow>
     grid_shape g \<and>
     (\<forall>row col. in_bounds g row col \<longrightarrow> cvalue (cell_at g row col) = 0 \<or> cvalue (cell_at g row col) = 1)"
proof
  assume "wf_grid g"
  then show "grid_shape g \<and>
     (\<forall>row col. in_bounds g row col \<longrightarrow> cvalue (cell_at g row col) = 0 \<or> cvalue (cell_at g row col) = 1)"
    by (simp add: wf_grid_shape wf_grid_cvalue)
next
  assume a: "grid_shape g \<and>
     (\<forall>row col. in_bounds g row col \<longrightarrow> cvalue (cell_at g row col) = 0 \<or> cvalue (cell_at g row col) = 1)"
  have "cvalue c = 0 \<or> cvalue c = 1" if "r \<in> set (cells g)" "c \<in> set r" for r c
  proof -
    from that(1) obtain i where i: "i < length (cells g)" "r = cells g ! i"
      by (auto simp add: in_set_conv_nth)
    from that(2) obtain j where j: "j < length r" "c = r ! j"
      by (auto simp add: in_set_conv_nth)
    have "i < nat (rows g)" "j < nat (cols g)"
      using a i j that(1) by (simp_all add: grid_shape_def)
    then have "in_bounds g (int i) (int j)"
      by (simp add: in_bounds_def) arith
    then have "cvalue (cell_at g (int i) (int j)) = 0 \<or> cvalue (cell_at g (int i) (int j)) = 1"
      using a by blast
    then show ?thesis
      by (simp add: cell_at_def i j)
  qed
  then show "wf_grid g"
    using a by (simp add: wf_grid_def)
qed

lemma cvalue_next_cell:
  "cvalue c = 0 \<or> cvalue c = 1 \<Longrightarrow> cvalue (next_cell c n) = 0 \<or> cvalue (next_cell c n) = 1"
  by (auto simp add: next_cell_def)

lemma wf_grid_update_grid:
  assumes "wf_grid g"
  shows "wf_grid (grid_of (update_grid (g, ns)))"
proof -
  have m: "cells_mapped g (\<lambda>row col c. next_cell c (moore_count g row col))
             (grid_of (update_grid (g, ns)))"
    using update_grid_cells [of g ns] assms by (simp add: wf_grid_shape)
  then have b: "in_bounds (grid_of (update_grid (g, ns))) row col = in_bounds g row col" for row col
    by (simp add: cells_mapped_def in_bounds_def)
  show ?thesis
    unfolding wf_grid_iff [of "grid_of (update_grid (g, ns))"] b
    using m wf_grid_cvalue [OF assms] by (simp add: cells_mapped_def cvalue_next_cell)
qed

lemma moore_count_alive_cells:
  assumes "wf_grid g"
  shows "moore_count g row col = count_in (alive_cells g) row col"
  by (simp add: moore_count_def count_in_def moore_neighborhood_def
        value_at_indicator [OF assms] alive_cells_def get_value_def)

lemma alive_cells_update_grid:
  assumes "wf_grid g"
  shows "alive_cells (grid_of (update_grid (g, ns))) = life_step g (alive_cells g)"
proof -
  have m: "cells_mapped g (\<lambda>row col c. next_cell c (moore_count g row col))
             (grid_of (update_grid (g, ns)))"
    using update_grid_cells [of g ns] assms by (simp add: wf_grid_shape)
  then have b: "in_bounds (grid_of (update_grid (g, ns))) row col = in_bounds g row col" for row col
    by (simp add: cells_mapped_def in_bounds_def)
  have "cvalue (cell_at (grid_of (update_grid (g, ns))) row col) = 1 \<longleftrightarrow>
          (if (row, col) \<in> alive_cells g
           then count_in (alive_cells g) row col = 2 \<or> count_in (alive_cells g) row col = 3
           else count_in (alive_cells g) row col = 3)"
    if "in_bounds g row col" for row col
  proof -
    have "cell_at (grid_of (update_grid (g, ns))) row col
            = next_cell (cell_at g row col) (count_in (alive_cells g) row col)"
      using m that by (simp add: cells_mapped_def moore_count_alive_cells [OF assms])
    then show ?thesis
      using wf_grid_cvalue [OF assms that] that
      by (auto simp add: next_cell_def alive_cells_def)
  qed
  then show ?thesis
    by (auto simp add: alive_cells_def [of "grid_of (update_grid (g, ns))"] b life_step_def)
qed

lemma int_cases_5:
  fixes k :: int
  obtains "k < 0" | "k = 0" | "k = 1" | "k = 2" | "k = 3" | "k = 4" | "4 < k"
  by arith

lemma horizontal_rule:
  "(if (row, col) \<in> {(1, 1), (1, 2), (1, 3)}
    then count_in {(1, 1), (1, 2), (1, 3)} row col = 2 \<or> count_in {(1, 1), (1, 2), (1, 3)} row col = 3
    else count_in {(1, 1), (1, 2), (1, 3)} row col = 3)
   \<longleftrightarrow> (row, col) \<in> {(0, 2), (1, 2), (2, 2)}"
  by (cases row rule: int_cases_5; cases col rule: int_cases_5)
     (simp_all add: count_in_def moore_neighborhood_def)

lemma vertical_rule:
  "(if (row, col) \<in> {(0, 2), (1, 2), (2, 2)}
    then count_in {(0, 2), (1, 2), (2, 2)} row col = 2 \<or> count_in {(0, 2), (1, 2), (2, 2)} row col = 3
    else count_in {(0, 2), (1, 2), (2, 2)} row col = 3)
   \<longleftrightarrow> (row, col) \<in> {(1, 1), (1, 2), (1, 3)}"
  by (cases row rule: int_cases_5; cases col rule: int_cases_5)
     (simp_all add: count_in_def moore_neighborhood_def)

lemma life_step_horizontal:
  assumes "3 \<le> rows g" "4 \<le> cols g"
  shows "life_step g {(1, 1), (1, 2), (1, 3)} = {(0, 2), (1, 2), (2, 2)}"
  unfolding life_step_def horizontal_rule
  using assms by (auto simp add: in_bounds_def)

lemma life_step_vertical:
  assumes "3 \<le> rows g" "4 \<le> cols g"
  shows "life_step g {(0, 2), (1, 2), (2, 2)} = {(1, 1), (1, 2), (1, 3)}"
  unfolding life_step_def vertical_rule
  using assms by (auto simp add: in_bounds_def)

lemma alive_cells_filter:
  "alive_cells g = set (filter (\<lambda>p. cvalue (cell_at g (fst p) (snd p)) = 1) (all_coords g))"
  by (auto simp add: alive_cells_def set_all_coords)

lemma wf_grid_blinker: "wf_grid blinker"
  by (simp add: blinker_eq wf_grid_def grid_shape_def Cell_def)

lemma alive_cells_blinker: "alive_cells blinker = {(1, 1), (1, 2), (1, 3)}"
  by (simp add: alive_cells_filter all_coords_def py_range_def upt_rec blinker_eq cell_at_def
        Cell_def insert_commute)

section \<open>The loops of reset\<close>

lemma put_cell_same: "put_cell g row col (cell_at g row col) = g"
  by (simp add: put_cell_def cell_at_def)

lemma for_each_map: "for_each (map f xs) body s = for_each xs (\<lambda>x. body (f x)) s"
  by (induction xs arbitrary: s) (simp_all split: prod.splits option.splits)

lemma reset_body:
  assumes "grid_shape g" "in_bounds g row col"
  shows "(case get_cell g row col of
            Inl e \<Rightarrow> (Some e, (g, ns))
          | Inr c \<Rightarrow> if get_value c = 1 then call_cell row col toggle_value (g, ns)
                     else (None, (g, ns)))
         = (None, (put_cell g row col (reset_cell (cell_at g row col)),
                   ns @ (if get_value (cell_at g row col) = 1
                         then map (Pair (nat row, nat col)) (snd (toggle_value (cell_at g row col)))
                         else [])))"
  using assms
  by (simp add: get_cell_in_bounds call_cell_in_bounds reset_cell_def put_cell_same)

lemma reset_row:
  assumes "grid_shape g" "0 \<le> row" "row < rows g"
  shows "fst (for_each (py_range 0 (cols g))
           (\<lambda>col s2. case get_cell (fst s2) row col of
                 Inl e \<Rightarrow> (Some e, s2)
               | Inr c \<Rightarrow> if get_value c = 1 then call_cell row col toggle_value s2 else (None, s2))
           (g, ns)) = None \<and>
         cells_mapped g (\<lambda>r k c. if r = row then reset_cell c else c)
           (fst (snd (for_each (py_range 0 (cols g))
           (\<lambda>col s2. case get_cell (fst s2) row col of
                 Inl e \<Rightarrow> (Some e, s2)
               | Inr c \<Rightarrow> if get_value c = 1 then call_cell row col toggle_value s2 else (None, s2))
           (g, ns))))"
proof -
  let ?body = "\<lambda>p s2. case get_cell (fst s2) (fst p) (snd p) of
                 Inl e \<Rightarrow> (Some e, s2)
               | Inr c \<Rightarrow> if get_value c = 1 then call_cell (fst p) (snd p) toggle_value s2
                          else (None, s2)"
  let ?ps = "map (Pair row) (py_range 0 (cols g))"
  have eq: "for_each (py_range 0 (cols g))
           (\<lambda>col s2. case get_cell (fst s2) row col of
                 Inl e \<Rightarrow> (Some e, s2)
               | Inr c \<Rightarrow> if get_value c = 1 then call_cell row col toggle_value s2 else (None, s2))
           (g, ns) = for_each ?ps ?body (g, ns)"
    by (simp add: for_each_map cong: sum.case_cong if_cong)
  have "fst (for_each ?ps ?body (g, ns)) = None \<and>
        cells_mapped g (\<lambda>r k c. if (r, k) \<in> set ?ps then reset_cell c else c)
          (fst (snd (for_each ?ps ?body (g, ns))))"
  proof (rule for_each_cells [OF assms(1)])
    show "\<forall>p \<in> set ?ps. in_bounds g (fst p) (snd p)"
      using assms(2,3) by (auto simp add: set_py_range_0 in_bounds_def)
    show "distinct ?ps"
      by (simp add: distinct_map distinct_py_range inj_on_def)
    fix p g' ns'
    assume "grid_shape g'" "in_bounds g' (fst p) (snd p)"
    then show "fst (?body p (g', ns')) = None \<and>
               fst (snd (?body p (g', ns')))
                 = put_cell g' (fst p) (snd p) (reset_cell (cell_at g' (fst p) (snd p)))"
      by (simp add: reset_body)
  qed
  then have "fst (for_each ?ps ?body (g, ns)) = None \<and>
        cells_mapped g (\<lambda>r k c. if r = row then reset_cell c else c)
          (fst (snd (for_each ?ps ?body (g, ns))))"
    by (auto elim!: cells_mapped_cong simp add: set_py_range_0 in_bounds_def image_iff)
  then show ?thesis
    unfolding eq .
qed

lemma reset_cells:
  assumes "grid_shape g"
  shows "raised (reset (g, ns)) = None \<and>
         cells_mapped g (\<lambda>row col c. reset_cell c) (grid_of (reset (g, ns)))"
proof -
  let ?row = "\<lambda>row s1. for_each (py_range 0 (cols (fst s1)))
          (\<lambda>col s2.
             case get_cell (fst s2) row col of
               Inl e \<Rightarrow> (Some e, s2)
             | Inr c \<Rightarrow> if get_value c = 1 then call_cell row col toggle_value s2 else (None, s2))
          s1"
  have "fst (for_each (py_range 0 (rows g)) ?row (g, ns)) = None \<and>
        cells_mapped g (\<lambda>row col c. if row \<in> set (py_range 0 (rows g)) then reset_cell c else c)
          (fst (snd (for_each (py_range 0 (rows g)) ?row (g, ns))))"
  proof (rule for_each_inv [where Inv = "\<lambda>seen t.
      cells_mapped g (\<lambda>row col c. if row \<in> set seen then reset_cell c else c) (fst t)"])
    show "cells_mapped g (\<lambda>row col c. if row \<in> set [] then reset_cell c else c) (fst (g, ns))"
      using assms by (simp add: cells_mapped_refl)
  next
    fix seen x rest and t :: state
    assume xs: "py_range 0 (rows g) = seen @ x # rest"
      and inv: "cells_mapped g (\<lambda>row col c. if row \<in> set seen then reset_cell c else c) (fst t)"
    obtain g' ns' where t: "t = (g', ns')"
      by (cases t)
    have "x \<in> set (py_range 0 (rows g))"
      by (simp add: xs)
    then have x: "0 \<le> x" "x < rows g"
      by (simp_all add: set_py_range_0)
    have "distinct (seen @ x # rest)"
      using distinct_py_range [of 0 "rows g"] by (simp add: xs)
    then have nx: "x \<notin> set seen"
      by simp
    have g': "grid_shape g'" "rows g' = rows g"
      using inv by (simp_all add: cells_mapped_def t)
    have xr: "x < rows g'"
      using x g'(2) by simp
    note r = reset_row [OF g'(1) x(1) xr, of ns']
    have "cells_mapped g
            (\<lambda>row col c. if row = x then reset_cell (if row \<in> set seen then reset_cell c else c)
                          else (if row \<in> set seen then reset_cell c else c))
            (fst (snd (?row x (g', ns'))))"
      unfolding fst_conv
      by (rule cells_mapped_trans [OF inv [unfolded t fst_conv] r [THEN conjunct2]])
    then have "cells_mapped g (\<lambda>row col c. if row \<in> set (seen @ [x]) then reset_cell c else c)
            (fst (snd (?row x (g', ns'))))"
      using nx by (auto elim!: cells_mapped_cong)
    then show "fst (?row x t) = None \<and>
        cells_mapped g (\<lambda>row col c. if row \<in> set (seen @ [x]) then reset_cell c else c)
          (fst (snd (?row x t)))"
      using r [THEN conjunct1] by (simp add: t)
  qed
  then have "fst (reset (g, ns)) = None \<and>
        cells_mapped g (\<lambda>row col c. reset_cell c) (fst (snd (reset (g, ns))))"
    unfolding reset_def fst_conv
    by (auto elim!: cells_mapped_cong simp add: set_py_range_0 in_bounds_def)
  then show ?thesis
    by (simp add: raised_def grid_of_def)
qed

lemma reset_all_dead:
  assumes "grid_shape g"
    and "\<forall>row col. in_bounds g row col \<longrightarrow> get_value (cell_at g row col) \<noteq> 1"
  shows "reset (g, ns) = (None, (g, ns))"
proof -
  let ?col = "\<lambda>row col s2.
             case get_cell (fst s2) row col of
               Inl e \<Rightarrow> (Some e, s2)
             | Inr c \<Rightarrow> if get_value c = 1 then call_cell row col toggle_value s2 else (None, s2)"
  have row: "fst (for_each (py_range 0 (cols g)) (?col row) (g, ns)) = None \<and>
             snd (for_each (py_range 0 (cols g)) (?col row) (g, ns)) = (g, ns)"
    if "0 \<le> row" "row < rows g" for row
  proof (rule for_each_inv [where Inv = "\<lambda>seen t. t = (g, ns)"])
    show "(g, ns) = (g, ns)" ..
  next
    fix seen x rest and t :: state
    assume xs: "py_range 0 (cols g) = seen @ x # rest" and t: "t = (g, ns)"
    have "x \<in> set (py_range 0 (cols g))"
      by (simp add: xs)
    then have "in_bounds g row x"
      using that by (simp add: set_py_range_0 in_bounds_def)
    then show "fst (?col row x t) = None \<and> snd (?col row x t) = (g, ns)"
      using assms by (simp add: t get_cell_in_bounds)
  qed
  have "fst (for_each (py_range 0 (rows g))
               (\<lambda>row s1. for_each (py_range 0 (cols (fst s1))) (?col row) s1) (g, ns)) = None \<and>
        snd (for_each (py_range 0 (rows g))
               (\<lambda>row s1. for_each (py_range 0 (cols (fst s1))) (?col row) s1) (g, ns)) = (g, ns)"
  proof (rule for_each_inv [where Inv = "\<lambda>seen t. t = (g, ns)"])
    show "(g, ns) = (g, ns)" ..
  next
    fix seen x rest and t :: state
    assume xs: "py_range 0 (rows g) = seen @ x # rest" and t: "t = (g, ns)"
    have "x \<in> set (py_range 0 (rows g))"
      by (simp add: xs)
    then have "0 \<le> x" "x < rows g"
      by (simp_all add: set_py_range_0)
    then show "fst (for_each (py_range 0 (cols (fst t))) (?col x) t) = None \<and>
               snd (for_each (py_range 0 (cols (fst t))) (?col x) t) = (g, ns)"
      using row [of x] by (simp add: t)
  qed
  then show ?thesis
    by (simp add: reset_def prod_eq_iff)
qed

lemma fst_toggle_value:
  "fst (toggle_value c) =
     (if cvalue c = 0 then c\<lparr>cvalue := 1\<rparr> else c\<lparr>cvalue := 0, alive_time := 0\<rparr>)"
  by (simp add: toggle_value_def reset_time_def)

lemma cvalue_reset_cell:
  "cvalue c = 0 \<or> cvalue c = 1 \<Longrightarrow> cvalue (reset_cell c) = 0"
  by (auto simp add: reset_cell_def fst_toggle_value get_value_def)

lemma wf_grid_reset:
  assumes "wf_grid g"
  shows "wf_grid (grid_of (reset (g, ns)))"
proof -
  have m: "cells_mapped g (\<lambda>row col c. reset_cell c) (grid_of (reset (g, ns)))"
    using reset_cells [of g ns] assms by (simp add: wf_grid_shape)
  then have b: "in_bounds (grid_of (reset (g, ns))) row col = in_bounds g row col" for row col
    by (simp add: cells_mapped_def in_bounds_def)
  show ?thesis
    unfolding wf_grid_iff [of "grid_of (reset (g, ns))"] b
    using m wf_grid_cvalue [OF assms]
    by (simp add: cells_mapped_def cvalue_reset_cell)
qed

section \<open>alive_neighbors\<close>

text \<open>
  Claim C5. On a well-formed grid and at an in-bounds coordinate, \<^verbatim>\<open>alive_neighbors(row, col)\<close>
  raises nothing and returns the number of alive cells among the coordinates of the grid
  that differ from \<open>(row, col)\<close> by at most 1 in each direction, \<open>(row, col)\<close> itself left
  out: coordinates outside the grid count for nothing, there is no wraparound. The result
  is between 0 and 8, and at most 3 at the corner \<open>(0, 0)\<close>. On the grid of 5 rows and 5
  columns whose only alive cell is \<open>(2, 2)\<close>, each of the eight neighbours of \<open>(2, 2)\<close>
  reports 1. The method is an expression of the grid: it has no assignment, and its model
  returns a count and no state.
\<close>

theorem alive_neighbors_counts_moore:
  assumes "wf_grid g" "in_bounds g row col"
  shows "(\<exists>n. alive_neighbors g row col = Inr n \<and>
              n = int (card (alive_around g row col)) \<and> 0 \<le> n \<and> n \<le> 8 \<and>
              (row = 0 \<and> col = 0 \<longrightarrow> n \<le> 3)) \<and>
         map (\<lambda>p. alive_neighbors single_alive (fst p) (snd p)) (moore_neighborhood 2 2)
           = replicate 8 (Inr 1)"
proof -
  have "alive_neighbors g row col = Inr (int (card (alive_around g row col)))"
    using assms by (simp add: alive_neighbors_moore wf_grid_shape moore_count_card)
  moreover have "card (alive_around g row col) \<le> 8"
    by (rule card_alive_around_le)
  moreover have "row = 0 \<and> col = 0 \<longrightarrow> card (alive_around g row col) \<le> 3"
    using card_alive_around_corner [of g] by simp
  moreover have "map (\<lambda>p. alive_neighbors single_alive (fst p) (snd p)) (moore_neighborhood 2 2)
           = replicate 8 (Inr 1)"
    by (simp add: single_alive_eq moore_neighborhood_def eval_defs Cell_def numeral_eq_Suc)
  ultimately show ?thesis
    by simp
qed

theorem alive_neighbors_counts_moore_witness:
  "wf_grid single_alive \<and> in_bounds single_alive 0 0 \<and>
   (\<exists>n. alive_neighbors single_alive 0 0 = Inr n \<and>
        n = int (card (alive_around single_alive 0 0)) \<and> 0 \<le> n \<and> n \<le> 3) \<and>
   in_bounds single_alive 1 3 \<and>
   (\<exists>n. alive_neighbors single_alive 1 3 = Inr n \<and>
        n = int (card (alive_around single_alive 1 3)) \<and> 0 \<le> n \<and> n \<le> 8)"
proof -
  have 1: "in_bounds single_alive 0 0" "in_bounds single_alive 1 3"
    by (simp_all add: in_bounds_def single_alive_eq)
  show ?thesis
    using alive_neighbors_counts_moore [OF wf_grid_single_alive 1(1)]
          alive_neighbors_counts_moore [OF wf_grid_single_alive 1(2)]
          wf_grid_single_alive 1
    by auto
qed

section \<open>The rules of update_grid\<close>

text \<open>
  Claim C2, the survival rule. A cell that is alive and has 2 or 3 alive neighbours before
  \<^verbatim>\<open>update_grid()\<close> is alive after the call, and its alive time is the one of before the
  call plus 1.
\<close>

theorem survival_rule:
  assumes "grid_shape g" "in_bounds g row col"
    and "get_value (cell_at g row col) = 1"
    and "alive_neighbors g row col = Inr n" "n = 2 \<or> n = 3"
  shows "raised (update_grid (g, ns)) = None \<and>
         get_value (cell_at (grid_of (update_grid (g, ns))) row col) = 1 \<and>
         get_time (cell_at (grid_of (update_grid (g, ns))) row col)
           = get_time (cell_at g row col) + 1"
proof -
  have n: "moore_count g row col = n"
    using assms(1,2,4) by (simp add: alive_neighbors_moore)
  have "cell_at (grid_of (update_grid (g, ns))) row col = next_cell (cell_at g row col) n"
    using update_grid_cells [OF assms(1), of ns] assms(2) n by (simp add: cells_mapped_def)
  then show ?thesis
    using update_grid_cells [OF assms(1), of ns] assms(3,5)
    by (auto simp add: next_cell_def get_value_def get_time_def)
qed

theorem survival_rule_witness:
  "grid_shape blinker \<and> in_bounds blinker 1 2 \<and> get_value (cell_at blinker 1 2) = 1 \<and>
   alive_neighbors blinker 1 2 = Inr 2 \<and>
   raised (update_grid (blinker, [])) = None \<and>
   get_value (cell_at (grid_of (update_grid (blinker, []))) 1 2) = 1 \<and>
   get_time (cell_at (grid_of (update_grid (blinker, []))) 1 2) = get_time (cell_at blinker 1 2) + 1"
proof -
  have 1: "in_bounds blinker 1 2"
    by (simp add: in_bounds_def blinker_eq)
  have 2: "get_value (cell_at blinker 1 2) = 1"
    by (simp add: blinker_eq cell_at_def get_value_def)
  have 3: "alive_neighbors blinker 1 2 = Inr 2"
    by (simp add: blinker_eq alive_neighbors_def add_value_def get_cell_def py_getitem_def
          py_pos_def get_value_def Cell_def)
  show ?thesis
    using survival_rule [OF grid_shape_blinker 1 2 3, of "[]"] grid_shape_blinker 1 2 3
    by simp
qed

text \<open>
  Claim C3, the birth rule, as amended. A cell that is dead and has exactly 3 alive
  neighbours before \<^verbatim>\<open>update_grid()\<close> is alive after the call, and its alive time is the
  one it had before the call: \<^verbatim>\<open>toggle_value\<close> resets the alive time of a cell that dies,
  not of a cell that is born. So the alive time is 0 after the call when it was 0 before.
\<close>

theorem birth_rule:
  assumes "grid_shape g" "in_bounds g row col"
    and "get_value (cell_at g row col) = 0"
    and "alive_neighbors g row col = Inr 3"
  shows "raised (update_grid (g, ns)) = None \<and>
         get_value (cell_at (grid_of (update_grid (g, ns))) row col) = 1 \<and>
         get_time (cell_at (grid_of (update_grid (g, ns))) row col) = get_time (cell_at g row col) \<and>
         (get_time (cell_at g row col) = 0 \<longrightarrow>
            get_time (cell_at (grid_of (update_grid (g, ns))) row col) = 0)"
proof -
  have n: "moore_count g row col = 3"
    using assms(1,2,4) by (simp add: alive_neighbors_moore)
  have "cell_at (grid_of (update_grid (g, ns))) row col = next_cell (cell_at g row col) 3"
    using update_grid_cells [OF assms(1), of ns] assms(2) n by (simp add: cells_mapped_def)
  then show ?thesis
    using update_grid_cells [OF assms(1), of ns] assms(3)
    by (simp add: next_cell_def get_value_def get_time_def)
qed

theorem birth_rule_witness:
  "grid_shape blinker \<and> in_bounds blinker 0 2 \<and> get_value (cell_at blinker 0 2) = 0 \<and>
   alive_neighbors blinker 0 2 = Inr 3 \<and> get_time (cell_at blinker 0 2) = 0 \<and>
   raised (update_grid (blinker, [])) = None \<and>
   get_value (cell_at (grid_of (update_grid (blinker, []))) 0 2) = 1 \<and>
   get_time (cell_at (grid_of (update_grid (blinker, []))) 0 2) = 0"
proof -
  have 1: "in_bounds blinker 0 2"
    by (simp add: in_bounds_def blinker_eq)
  have 2: "get_value (cell_at blinker 0 2) = 0"
    by (simp add: blinker_eq cell_at_def get_value_def Cell_def)
  have 3: "alive_neighbors blinker 0 2 = Inr 3"
    by (simp add: blinker_eq eval_defs Cell_def)
  have 4: "get_time (cell_at blinker 0 2) = 0"
    by (simp add: blinker_eq cell_at_def get_time_def Cell_def)
  show ?thesis
    using birth_rule [OF grid_shape_blinker 1 2 3, of "[]"] grid_shape_blinker 1 2 3 4
    by simp
qed

text \<open>
  Claim C3 as stated fails on the code. On a grid of 2 rows and 2 columns, make the cells
  \<open>(0, 0)\<close>, \<open>(0, 1)\<close> and \<open>(1, 0)\<close> alive and call \<^verbatim>\<open>set_time(5)\<close> on the dead cell
  \<open>(1, 1)\<close>. That cell is dead with 3 alive neighbours; after \<^verbatim>\<open>update_grid()\<close> it is alive
  and its alive time is 5, not 0.
\<close>

theorem birth_duration_counterexample:
  "grid_shape stale_corner \<and> in_bounds stale_corner 1 1 \<and>
   get_value (cell_at stale_corner 1 1) = 0 \<and>
   alive_neighbors stale_corner 1 1 = Inr 3 \<and>
   raised (update_grid (stale_corner, [])) = None \<and>
   get_value (cell_at (grid_of (update_grid (stale_corner, []))) 1 1) = 1 \<and>
   get_time (cell_at (grid_of (update_grid (stale_corner, []))) 1 1) = 5"
  by (simp add: stale_corner_eq eval_defs update_defs)

text \<open>
  Claim C4, the death rule. A cell that is alive and whose count of alive neighbours is
  neither 2 nor 3 before \<^verbatim>\<open>update_grid()\<close> is dead after the call, with alive time 0.
\<close>

theorem death_rule:
  assumes "grid_shape g" "in_bounds g row col"
    and "get_value (cell_at g row col) = 1"
    and "alive_neighbors g row col = Inr n" "n \<noteq> 2" "n \<noteq> 3"
  shows "raised (update_grid (g, ns)) = None \<and>
         get_value (cell_at (grid_of (update_grid (g, ns))) row col) = 0 \<and>
         get_time (cell_at (grid_of (update_grid (g, ns))) row col) = 0"
proof -
  have n: "moore_count g row col = n"
    using assms(1,2,4) by (simp add: alive_neighbors_moore)
  have "cell_at (grid_of (update_grid (g, ns))) row col = next_cell (cell_at g row col) n"
    using update_grid_cells [OF assms(1), of ns] assms(2) n by (simp add: cells_mapped_def)
  then show ?thesis
    using update_grid_cells [OF assms(1), of ns] assms(3,5,6)
    by (simp add: next_cell_def get_value_def get_time_def)
qed

theorem death_rule_witness:
  "grid_shape blinker \<and> in_bounds blinker 1 1 \<and> get_value (cell_at blinker 1 1) = 1 \<and>
   alive_neighbors blinker 1 1 = Inr 1 \<and>
   raised (update_grid (blinker, [])) = None \<and>
   get_value (cell_at (grid_of (update_grid (blinker, []))) 1 1) = 0 \<and>
   get_time (cell_at (grid_of (update_grid (blinker, []))) 1 1) = 0"
proof -
  have 1: "in_bounds blinker 1 1"
    by (simp add: in_bounds_def blinker_eq)
  have 2: "get_value (cell_at blinker 1 1) = 1"
    by (simp add: blinker_eq cell_at_def get_value_def)
  have 3: "alive_neighbors blinker 1 1 = Inr 1"
    by (simp add: blinker_eq eval_defs Cell_def)
  show ?thesis
    using death_rule [OF grid_shape_blinker 1 2 3, of "[]"] grid_shape_blinker 1 2 3
    by simp
qed

section \<open>The blinker and the two phases\<close>

text \<open>
  Claim C1. On a well-formed grid of at least 5 rows and 5 columns whose alive cells are
  exactly \<open>(1, 1)\<close>, \<open>(1, 2)\<close> and \<open>(1, 3)\<close>, one call of \<^verbatim>\<open>update_grid()\<close> leaves exactly
  \<open>(0, 2)\<close>, \<open>(1, 2)\<close> and \<open>(2, 2)\<close> alive, and a second call leaves exactly \<open>(1, 1)\<close>,
  \<open>(1, 2)\<close> and \<open>(1, 3)\<close> alive again. The compute phase comes before the commit phase: on
  any grid \<open>h\<close> of the constructor's shape the three lists of changes are selected from the
  grid of before the call (its values and its counts of neighbours), the call is the commit
  of those lists, and every cell after the call is the rule applied to that cell and to its
  count of alive neighbours as they were before the call.
\<close>

theorem blinker_two_phase:
  assumes "wf_grid g" "5 \<le> rows g" "5 \<le> cols g"
    and "alive_cells g = {(1, 1), (1, 2), (1, 3)}"
    and "grid_shape h"
  shows "raised (update_grid (g, ns)) = None \<and>
         alive_cells (grid_of (update_grid (g, ns))) = {(0, 2), (1, 2), (2, 2)} \<and>
         raised (update_grid (snd (update_grid (g, ns)))) = None \<and>
         alive_cells (grid_of (update_grid (snd (update_grid (g, ns))))) = {(1, 1), (1, 2), (1, 3)} \<and>
         compute_changes h = Inr (select_changes h (all_coords h)) \<and>
         update_grid (h, ms) = commit_changes (select_changes h (all_coords h)) (h, ms) \<and>
         (\<forall>row col. in_bounds h row col \<longrightarrow>
            cell_at (grid_of (update_grid (h, ms))) row col
              = next_cell (cell_at h row col) (moore_count h row col))"
proof -
  obtain g1 ns1 where s1: "snd (update_grid (g, ns)) = (g1, ns1)"
    by (cases "snd (update_grid (g, ns))")
  then have g1: "g1 = grid_of (update_grid (g, ns))"
    by (simp add: grid_of_def)
  have d: "3 \<le> rows g" "4 \<le> cols g"
    using assms(2,3) by simp_all
  have ok1: "raised (update_grid (g, ns)) = None"
    using update_grid_cells [of g ns] assms(1) by (simp add: wf_grid_shape)
  have dims: "rows g1 = rows g" "cols g1 = cols g"
    using update_grid_cells [of g ns] assms(1) by (simp_all add: wf_grid_shape g1 cells_mapped_def)
  have a1: "alive_cells g1 = {(0, 2), (1, 2), (2, 2)}"
    unfolding g1 alive_cells_update_grid [OF assms(1)] assms(4) by (rule life_step_horizontal [OF d])
  have wf1: "wf_grid g1"
    unfolding g1 using assms(1) by (rule wf_grid_update_grid)
  have ok2: "raised (update_grid (g1, ns1)) = None"
    using update_grid_cells [of g1 ns1] wf1 by (simp add: wf_grid_shape)
  have a2: "alive_cells (grid_of (update_grid (g1, ns1))) = {(1, 1), (1, 2), (1, 3)}"
    unfolding alive_cells_update_grid [OF wf1] a1
    by (rule life_step_vertical) (simp_all add: dims d)
  have c: "compute_changes h = Inr (select_changes h (all_coords h))"
    using assms(5) by (rule compute_changes_eq)
  have u: "update_grid (h, ms) = commit_changes (select_changes h (all_coords h)) (h, ms)"
    by (simp add: update_grid_def c)
  have n: "\<forall>row col. in_bounds h row col \<longrightarrow>
            cell_at (grid_of (update_grid (h, ms))) row col
              = next_cell (cell_at h row col) (moore_count h row col)"
    using update_grid_cells [OF assms(5), of ms] by (simp add: cells_mapped_def)
  show ?thesis
    using ok1 a1 ok2 a2 c u n by (simp add: s1 g1 [symmetric])
qed

theorem blinker_two_phase_witness:
  "wf_grid blinker \<and> rows blinker = 5 \<and> cols blinker = 5 \<and>
   alive_cells blinker = {(1, 1), (1, 2), (1, 3)} \<and>
   alive_cells (grid_of (update_grid (blinker, []))) = {(0, 2), (1, 2), (2, 2)} \<and>
   alive_cells (grid_of (update_grid (snd (update_grid (blinker, []))))) = {(1, 1), (1, 2), (1, 3)} \<and>
   in_bounds blinker 0 2 \<and>
   cell_at (grid_of (update_grid (blinker, []))) 0 2
     = next_cell (cell_at blinker 0 2) (moore_count blinker 0 2)"
proof -
  have d: "rows blinker = 5" "cols blinker = 5"
    by (simp_all add: blinker_eq)
  have b: "in_bounds blinker 0 2"
    by (simp add: in_bounds_def d)
  note t = blinker_two_phase [OF wf_grid_blinker _ _ alive_cells_blinker grid_shape_blinker,
      of "[]" "[]", unfolded d]
  have 1: "alive_cells (grid_of (update_grid (blinker, []))) = {(0, 2), (1, 2), (2, 2)}"
    using t by blast
  have 2: "alive_cells (grid_of (update_grid (snd (update_grid (blinker, [])))))
             = {(1, 1), (1, 2), (1, 3)}"
    using t by blast
  have 3: "cell_at (grid_of (update_grid (blinker, []))) 0 2
             = next_cell (cell_at blinker 0 2) (moore_count blinker 0 2)"
    using t b by blast
  show ?thesis
    using wf_grid_blinker alive_cells_blinker d b 1 2 3 by blast
qed

section \<open>get_cell\<close>

text \<open>
  Claim C8, as amended. On a grid of \<open>rows \<times> cols\<close> cells, \<^verbatim>\<open>get_cell(row, col)\<close> raises
  IndexError exactly when \<open>row\<close> is outside \<open>[-rows, rows)\<close> or \<open>col\<close> is outside
  \<open>[-cols, cols)\<close>. For \<open>0 \<le> row < rows\<close> and \<open>0 \<le> col < cols\<close> it returns the cell at
  \<open>(row, col)\<close>; a negative subscript in range counts from the end, so that \<open>row < 0\<close>
  selects row \<open>rows + row\<close> and \<open>col < 0\<close> selects column \<open>cols + col\<close>.
\<close>

theorem get_cell_python_index:
  assumes "grid_shape g"
  shows "get_cell g row col =
           (if - rows g \<le> row \<and> row < rows g \<and> - cols g \<le> col \<and> col < cols g
            then Inr (cell_at g (if row < 0 then rows g + row else row)
                                (if col < 0 then cols g + col else col))
            else Inl IndexError)"
  using assms by (rule get_cell_cases)

theorem get_cell_python_index_witness:
  "grid_shape (Grid 2 2) \<and>
   get_cell (Grid 2 2) 1 0 = Inr (cell_at (Grid 2 2) 1 0) \<and>
   get_cell (Grid 2 2) (- 1) (- 2) = Inr (cell_at (Grid 2 2) 1 0) \<and>
   get_cell (Grid 2 2) 2 0 = Inl IndexError \<and>
   get_cell (Grid 2 2) 0 (- 3) = Inl IndexError"
proof -
  have d: "rows (Grid 2 2) = 2" "cols (Grid 2 2) = 2"
    by (simp_all add: Grid_2_2)
  show ?thesis
    using get_cell_python_index [OF grid_shape_Grid_2_2, of 1 0]
          get_cell_python_index [OF grid_shape_Grid_2_2, of "- 1" "- 2"]
          get_cell_python_index [OF grid_shape_Grid_2_2, of 2 0]
          get_cell_python_index [OF grid_shape_Grid_2_2, of 0 "- 3"]
    by (simp add: grid_shape_Grid_2_2 d)
qed

text \<open>
  Claim C8 as stated fails on the code: on a grid of 2 rows and 2 columns the row \<open>-1\<close> is
  outside \<open>[0, 2)\<close>, and \<^verbatim>\<open>get_cell(-1, 0)\<close> raises nothing: it returns the cell of the
  last row, here the one cell made alive before.
\<close>

theorem get_cell_negative_index_counterexample:
  "rows (Grid 2 2) = 2 \<and>
   get_cell (Grid 2 2) (- 1) 0 = Inr Cell \<and>
   get_cell (grid_of (call_cell 1 0 toggle_value (Grid 2 2, []))) (- 1) 0
     = Inr \<lparr>cvalue = 1, alive_time = 0\<rparr>"
  by (simp add: Grid_2_2 call_cell_def py_pos_def toggle_value_def Cell_def grid_of_def
        get_cell_def py_getitem_def)

section \<open>reset\<close>

text \<open>
  Claim C7, as amended. After \<^verbatim>\<open>reset()\<close> on a well-formed grid every cell has value 0. A
  cell that was alive has alive time 0 after the call, and so has a dead cell whose alive
  time was 0; a dead cell is not touched at all, whatever its alive time. On a grid with no
  alive cell \<^verbatim>\<open>reset()\<close> changes nothing and emits nothing: the state after the call,
  notifications included, is the state of before the call. So a second \<^verbatim>\<open>reset()\<close> right
  after a first one changes nothing and emits nothing.
\<close>

theorem reset_kills_alive_cells:
  assumes "wf_grid g"
  shows "raised (reset (g, ns)) = None \<and>
         (\<forall>row col. in_bounds g row col \<longrightarrow>
            get_value (cell_at (grid_of (reset (g, ns))) row col) = 0 \<and>
            (get_value (cell_at g row col) = 1 \<or> get_time (cell_at g row col) = 0 \<longrightarrow>
               get_time (cell_at (grid_of (reset (g, ns))) row col) = 0) \<and>
            (get_value (cell_at g row col) = 0 \<longrightarrow>
               cell_at (grid_of (reset (g, ns))) row col = cell_at g row col)) \<and>
         (alive_cells g = {} \<longrightarrow> reset (g, ns) = (None, (g, ns))) \<and>
         reset (snd (reset (g, ns))) = (None, snd (reset (g, ns)))"
proof -
  obtain g1 ns1 where s1: "snd (reset (g, ns)) = (g1, ns1)"
    by (cases "snd (reset (g, ns))")
  then have g1: "g1 = grid_of (reset (g, ns))"
    by (simp add: grid_of_def)
  have shape: "grid_shape g"
    using assms by (rule wf_grid_shape)
  have m: "cells_mapped g (\<lambda>row col c. reset_cell c) g1"
    unfolding g1 using reset_cells [OF shape, of ns] by simp
  have cell: "cell_at g1 row col = reset_cell (cell_at g row col)" if "in_bounds g row col" for row col
    using m that by (simp add: cells_mapped_def)
  have 1: "raised (reset (g, ns)) = None"
    using reset_cells [OF shape, of ns] by simp
  have 2: "get_value (cell_at g1 row col) = 0 \<and>
           (get_value (cell_at g row col) = 1 \<or> get_time (cell_at g row col) = 0 \<longrightarrow>
              get_time (cell_at g1 row col) = 0) \<and>
           (get_value (cell_at g row col) = 0 \<longrightarrow> cell_at g1 row col = cell_at g row col)"
    if "in_bounds g row col" for row col
    using wf_grid_cvalue [OF assms that] cell [OF that]
    by (auto simp add: reset_cell_def fst_toggle_value get_value_def get_time_def)
  have 3: "reset (g, ns) = (None, (g, ns))" if "alive_cells g = {}"
  proof (rule reset_all_dead [OF shape])
    show "\<forall>row col. in_bounds g row col \<longrightarrow> get_value (cell_at g row col) \<noteq> 1"
      using that by (auto simp add: alive_cells_def get_value_def)
  qed
  have "reset (g1, ns1) = (None, (g1, ns1))"
  proof (rule reset_all_dead)
    show "grid_shape g1"
      using m by (simp add: cells_mapped_def)
    have "in_bounds g1 row col = in_bounds g row col" for row col
      using m by (simp add: cells_mapped_def in_bounds_def)
    then show "\<forall>row col. in_bounds g1 row col \<longrightarrow> get_value (cell_at g1 row col) \<noteq> 1"
      using 2 by simp
  qed
  then have 4: "reset (snd (reset (g, ns))) = (None, snd (reset (g, ns)))"
    by (simp add: s1)
  show ?thesis
    using 1 2 3 4 unfolding g1 by blast
qed

theorem reset_kills_alive_cells_witness:
  "wf_grid blinker \<and> in_bounds blinker 1 1 \<and> get_value (cell_at blinker 1 1) = 1 \<and>
   raised (reset (blinker, [])) = None \<and>
   get_value (cell_at (grid_of (reset (blinker, []))) 1 1) = 0 \<and>
   get_time (cell_at (grid_of (reset (blinker, []))) 1 1) = 0 \<and>
   reset (snd (reset (blinker, []))) = (None, snd (reset (blinker, []))) \<and>
   wf_grid (Grid 2 2) \<and> alive_cells (Grid 2 2) = {} \<and>
   reset (Grid 2 2, []) = (None, (Grid 2 2, []))"
proof -
  have b: "in_bounds blinker 1 1"
    by (simp add: in_bounds_def blinker_eq)
  have v: "get_value (cell_at blinker 1 1) = 1"
    by (simp add: blinker_eq cell_at_def get_value_def)
  have w: "wf_grid (Grid 2 2)"
    by (simp add: Grid_2_2 wf_grid_def grid_shape_def Cell_def)
  have a: "alive_cells (Grid 2 2) = {}"
    by (simp add: alive_cells_filter all_coords_def py_range_def upt_rec Grid_2_2 cell_at_def
          Cell_def)
  note t1 = reset_kills_alive_cells [OF wf_grid_blinker, of "[]"]
  note t2 = reset_kills_alive_cells [OF w, of "[]"]
  show ?thesis
    using t1 t2 wf_grid_blinker b v w a by blast
qed

text \<open>
  Claim C7 as stated fails on the code. On a grid of 2 rows and 2 columns with no alive
  cell, call \<^verbatim>\<open>set_time(5)\<close> on the cell \<open>(0, 0)\<close>. After \<^verbatim>\<open>reset()\<close> that cell has value 0
  and alive time 5, not 0: \<^verbatim>\<open>reset\<close> toggles the alive cells only.
\<close>

theorem reset_stale_duration_counterexample:
  "wf_grid stale_dead \<and> in_bounds stale_dead 0 0 \<and>
   raised (reset (stale_dead, [])) = None \<and>
   get_value (cell_at (grid_of (reset (stale_dead, []))) 0 0) = 0 \<and>
   get_time (cell_at (grid_of (reset (stale_dead, []))) 0 0) = 5"
  by (simp add: stale_dead_eq wf_grid_def eval_defs reset_def py_range_def upt_rec raised_def
        grid_of_def)

section \<open>set_sleep\<close>

text \<open>
  Claim C10. \<^verbatim>\<open>set_sleep(0)\<close> raises ZeroDivisionError, and the state it leaves is the state
  it was called in: the division raises before the assignment to \<^verbatim>\<open>_sleep\<close>, so that
  \<^verbatim>\<open>get_sleep()\<close> still returns the delay of before the call.
\<close>

theorem set_sleep_zero_raises:
  "raised (set_sleep 0 (g, ns)) = Some ZeroDivisionError \<and>
   snd (set_sleep 0 (g, ns)) = (g, ns) \<and>
   get_sleep (grid_of (set_sleep 0 (g, ns))) = get_sleep g"
  by (simp add: set_sleep_def py_truediv_def raised_def grid_of_def)

end
